theory Spec2Isabelle
  imports Complex_Main "HOL-Library.AList"
begin

section \<open>Transaction lineage analyzer\<close>

text \<open>
  A shallow embedding of \<^verbatim>\<open>transaction_lineage_analyzer.py\<close>.

  Python values are represented as follows.
  \<^item> A \<^verbatim>\<open>str\<close> is a \<^typ>\<open>string\<close>; truthiness of a string is \<open>s \<noteq> ''''\<close>.
  \<^item> A \<^verbatim>\<open>float\<close> is a value of a type \<open>'v\<close> of which the engine uses only the
    constant \<open>0.0\<close> and \<open>+=\<close>, so the type is left open (\<open>'v::{zero,plus}\<close>): no
    law of addition is assumed, and every general theorem below holds for Python's floats,
    which the type \<open>pyfloat\<close> below represents, as for the reals. Where a statement
    depends on the result of an addition or of \<^verbatim>\<open>float(s)\<close>, it is evaluated at
    \<open>pyfloat\<close>; the other concrete ledgers carry their volumes at type \<^typ>\<open>real\<close>.
  \<^item> A \<^verbatim>\<open>dict\<close> is an association list with distinct keys in insertion order;
    \<^verbatim>\<open>d[k] = v\<close> is \<^const>\<open>AList.update\<close> (an existing key keeps its position, a new
    key goes to the end), \<^verbatim>\<open>d.get(k)\<close> is \<^const>\<open>map_of\<close>, and the in-place mutation
    of the object stored under \<open>k\<close> is \<^const>\<open>AList.map_entry\<close>.
  \<^item> An exception is a value \<open>Inl e\<close> of a sum type.
\<close>

subsection \<open>Transaction\<close>

datatype error = ValueError | RecursionError

record 'v transaction =
  op_date :: string
  op_id :: string
  op_type :: string
  from_vessel :: string
  from_batch :: string
  to_vessel :: string
  to_batch :: string
  net :: 'v
  loss_gain_amount :: 'v
  loss_gain_reason :: string
  winery :: string





subsection \<open>Python floats\<close>

text \<open>
  A Python \<^verbatim>\<open>float\<close> is an IEEE 754 binary64 number. \<open>Finite q\<close> is the double whose
  value is the rational \<open>q\<close> (\<open>Finite 0\<close> is \<open>0.0\<close>), \<open>NegZero\<close> is \<open>-0.0\<close>, and
  there is one not-a-number (its sign and payload, which no operation of the program
  reads, are not kept). \<open>round64\<close> is rounding to the nearest double, ties to the even
  significand: 53 significant bits, least exponent \<open>-1022\<close> with gradual underflow, and
  infinity when the rounded magnitude reaches \<open>2 ^ 1024\<close>. \<open>float_add\<close> is \<^verbatim>\<open>+\<close> on floats, which raises no
  exception. Only values that \<open>round64\<close> produces are doubles; the program never builds
  another \<open>Finite q\<close>.
\<close>

datatype pyfloat = Finite rat | NegZero | PosInf | NegInf | NaN

fun bit_length :: "nat \<Rightarrow> nat" where
  "bit_length n = (if n = 0 then 0 else Suc (bit_length (n div 2)))"

declare bit_length.simps [simp del]

definition floor_log2 :: "rat \<Rightarrow> int" where
  "floor_log2 x =
     (if 1 \<le> x then int (bit_length (nat \<lfloor>x\<rfloor>)) - 1
      else - int (bit_length (nat (\<lceil>1 / x\<rceil> - 1))))"

definition round_half_even :: "rat \<Rightarrow> int" where
  "round_half_even x =
     (let f = \<lfloor>x\<rfloor>; r = x - of_int f
      in if r < 1 / 2 then f else if 1 / 2 < r then f + 1 else if even f then f else f + 1)"

definition round_magnitude :: "rat \<Rightarrow> rat" where
  "round_magnitude x =
     (let e = max (floor_log2 x) (- 1022); q = 2 powi (e - 52)
      in of_int (round_half_even (x / q)) * q)"

definition round64 :: "rat \<Rightarrow> pyfloat" where
  "round64 x =
     (if x = 0 then Finite 0
      else if 0 < x then
        (let y = round_magnitude x in if 2 powi 1024 \<le> y then PosInf else Finite y)
      else
        (let y = round_magnitude (- x)
         in if 2 powi 1024 \<le> y then NegInf else if y = 0 then NegZero else Finite (- y)))"

fun float_add :: "pyfloat \<Rightarrow> pyfloat \<Rightarrow> pyfloat" where
  "float_add NaN _ = NaN"
| "float_add _ NaN = NaN"
| "float_add PosInf NegInf = NaN"
| "float_add NegInf PosInf = NaN"
| "float_add PosInf _ = PosInf"
| "float_add _ PosInf = PosInf"
| "float_add NegInf _ = NegInf"
| "float_add _ NegInf = NegInf"
| "float_add NegZero y = y"
| "float_add x NegZero = x"
| "float_add (Finite a) (Finite b) = round64 (a + b)"

instantiation pyfloat :: "{zero, plus}"
begin

definition zero_pyfloat :: pyfloat where
  "zero_pyfloat = Finite 0"

definition plus_pyfloat :: "pyfloat \<Rightarrow> pyfloat \<Rightarrow> pyfloat" where
  "plus_pyfloat = float_add"

instance ..

end

subsection \<open>The builtin float on ASCII strings\<close>












subsection \<open>BatchLineage\<close>

record 'v batch_lineage =
  batch_name :: string
  contributing_batches :: "(string \<times> 'v) list"
  contributing_transactions :: "'v transaction list"
  outgoing_transactions :: "'v transaction list"
  current_volume :: 'v
  is_on_hand :: bool
  has_left_inventory :: bool

definition BatchLineage :: "string \<Rightarrow> ('v::zero) batch_lineage" where
  "BatchLineage name =
     \<lparr> batch_name = name,
       contributing_batches = [],
       contributing_transactions = [],
       outgoing_transactions = [],
       current_volume = 0,
       is_on_hand = False,
       has_left_inventory = False \<rparr>"

text \<open>
  \<^verbatim>\<open>self.contributing_batches[source_batch] += gallons\<close> reads the entry and stores the
  sum under the same key; the key is present at that point, by the line before it.
\<close>

definition add_incoming_transaction ::
  "('v::{zero,plus}) batch_lineage \<Rightarrow> 'v transaction \<Rightarrow> 'v \<Rightarrow> 'v batch_lineage" where
  "add_incoming_transaction self txn gallons =
     (let source_batch = from_batch txn;
          cb = contributing_batches self;
          cb' = (if source_batch \<noteq> '''' \<and> source_batch \<noteq> batch_name self
                 then AList.map_entry source_batch (\<lambda>v. v + gallons)
                        (if map_of cb source_batch = None
                         then AList.update source_batch 0 cb else cb)
                 else cb)
      in self \<lparr> contributing_batches := cb',
                contributing_transactions := contributing_transactions self @ [txn] \<rparr>)"

definition add_outgoing_transaction ::
  "'v batch_lineage \<Rightarrow> 'v transaction \<Rightarrow> 'v batch_lineage" where
  "add_outgoing_transaction self txn =
     self \<lparr> outgoing_transactions := outgoing_transactions self @ [txn] \<rparr>"

subsection \<open>TransactionLineageAnalyzer\<close>

record 'v analyzer =
  transactions :: "'v transaction list"
  batch_lineages :: "(string \<times> 'v batch_lineage) list"

definition init_analyzer :: "'v analyzer" where
  "init_analyzer = \<lparr> transactions = [], batch_lineages = [] \<rparr>"

text \<open>
  First pass of \<^verbatim>\<open>_build_lineage\<close>. The Python \<^verbatim>\<open>set\<close> \<open>all_batches\<close> is a list
  without duplicates. Python leaves the iteration order of a set open; the list keeps
  the order of first occurrence, and no statement below depends on that order.
\<close>

definition set_add :: "'a \<Rightarrow> 'a list \<Rightarrow> 'a list" where
  "set_add x xs = (if x \<in> set xs then xs else xs @ [x])"

definition add_batches :: "'v transaction \<Rightarrow> string list \<Rightarrow> string list" where
  "add_batches txn all_batches =
     (let s1 = (if from_batch txn \<noteq> '''' then set_add (from_batch txn) all_batches
                else all_batches)
      in if to_batch txn \<noteq> '''' then set_add (to_batch txn) s1 else s1)"

definition collect_batches :: "'v transaction list \<Rightarrow> string list" where
  "collect_batches ts = fold add_batches ts []"

definition create_lineages ::
  "string list \<Rightarrow> (string \<times> ('v::zero) batch_lineage) list \<Rightarrow> (string \<times> 'v batch_lineage) list" where
  "create_lineages all_batches bl =
     fold (\<lambda>batch d. AList.update batch (BatchLineage batch) d) all_batches bl"

text \<open>
  The body of the loop of the second pass. \<^verbatim>\<open>k in self.batch_lineages\<close> is
  \<open>has_key\<close>.
\<close>

definition has_key :: "('k \<times> 'a) list \<Rightarrow> 'k \<Rightarrow> bool" where
  "has_key d k = (k \<in> fst ` set d)"

definition incoming_side ::
  "('v::{zero,plus}) transaction \<Rightarrow> (string \<times> 'v batch_lineage) list \<Rightarrow> (string \<times> 'v batch_lineage) list" where
  "incoming_side txn bl =
     (if to_batch txn \<noteq> '''' \<and> has_key bl (to_batch txn)
      then AList.map_entry (to_batch txn)
             (\<lambda>l. add_incoming_transaction l txn (net txn)) bl
      else bl)"

definition process_transaction ::
  "('v::{zero,plus}) transaction \<Rightarrow> (string \<times> 'v batch_lineage) list \<Rightarrow> (string \<times> 'v batch_lineage) list" where
  "process_transaction txn bl =
     (if op_type txn = ''On-Hand'' then
        (if has_key bl (to_batch txn)
         then AList.map_entry (to_batch txn)
                (\<lambda>l. l \<lparr> is_on_hand := True \<rparr> \<lparr> current_volume := net txn \<rparr>) bl
         else bl)
      else if op_type txn \<in> set [''Transfer'', ''Blend'', ''Receipt''] then
        (let bl1 = incoming_side txn bl
         in if from_batch txn \<noteq> '''' \<and> has_key bl1 (from_batch txn)
            then (let bl2 = AList.map_entry (from_batch txn)
                              (\<lambda>l. add_outgoing_transaction l txn) bl1
                  in if op_type txn \<noteq> ''Receipt''
                     then AList.map_entry (from_batch txn)
                            (\<lambda>l. l \<lparr> has_left_inventory := True \<rparr>) bl2
                     else bl2)
            else bl1)
      else if op_type txn = ''Adjustment'' then incoming_side txn bl
      else bl)"

definition build_lineage :: "('v::{zero,plus}) analyzer \<Rightarrow> 'v analyzer" where
  "build_lineage self =
     (let all_batches = collect_batches (transactions self);
          bl0 = create_lineages all_batches (batch_lineages self);
          bl = fold process_transaction (transactions self) bl0
      in self \<lparr> batch_lineages := bl \<rparr>)"

text \<open>
  Ingesting a record sequence: a fresh analyzer whose transaction list is the sequence,
  followed by \<^verbatim>\<open>_build_lineage\<close>, as \<^verbatim>\<open>load_from_csv\<close> does on a new instance.
\<close>

definition ingest :: "('v::{zero,plus}) transaction list \<Rightarrow> 'v analyzer" where
  "ingest ts = build_lineage (init_analyzer \<lparr> transactions := transactions init_analyzer @ ts \<rparr>)"

definition get_batch_lineage :: "'v analyzer \<Rightarrow> string \<Rightarrow> 'v batch_lineage option" where
  "get_batch_lineage self name = map_of (batch_lineages self) name"

text \<open>
  The result of \<^verbatim>\<open>get_full_lineage_tree\<close> is a dictionary of one of three shapes:
  the leaf \<^verbatim>\<open>{'batch_name': n, 'cycle_detected': True}\<close>, the leaf
  \<^verbatim>\<open>{'batch_name': n, 'not_found': True}\<close>, and the node with the scalar attributes
  and the list under \<^verbatim>\<open>'contributing_batches'\<close>. The last component is the entry
  \<^verbatim>\<open>'gallons_contributed'\<close>, which the caller stores into the dictionary of each
  sub-tree and which the root does not have.
\<close>

datatype 'v lineage_tree =
    Cycle_Detected string "'v option"
  | Not_Found string "'v option"
  | Lineage_Node string 'v bool bool "'v lineage_tree list" "'v option"

fun set_gallons_contributed :: "'v \<Rightarrow> 'v lineage_tree \<Rightarrow> 'v lineage_tree" where
  "set_gallons_contributed g (Cycle_Detected n _) = Cycle_Detected n (Some g)"
| "set_gallons_contributed g (Not_Found n _) = Not_Found n (Some g)"
| "set_gallons_contributed g (Lineage_Node n v oh hl cs _) = Lineage_Node n v oh hl cs (Some g)"

text \<open>
  The loop over \<^verbatim>\<open>contributing_batches.items()\<close>: the sub-trees in order, or the first
  exception that a recursive call raises.
\<close>

fun sub_trees :: "(error + 'a) list \<Rightarrow> error + 'a list" where
  "sub_trees [] = Inr []"
| "sub_trees (Inl e # rs) = Inl e"
| "sub_trees (Inr t # rs) = (case sub_trees rs of Inl e \<Rightarrow> Inl e | Inr ts \<Rightarrow> Inr (t # ts))"

text \<open>
  \<^verbatim>\<open>get_full_lineage_tree\<close> is plain recursion, one interpreter frame per level, and the
  interpreter raises \<^verbatim>\<open>RecursionError\<close> when a call would pass its recursion limit
  (\<^verbatim>\<open>sys.getrecursionlimit()\<close>, 1000 by default); the method does not catch it.
  \<open>frames\<close> is the recursion depth still available when the method is called, its own
  frame included. \<open>helper\<close> is the depth that the body needs beyond its own frame for the
  calls it makes other than the recursive one (\<^verbatim>\<open>visited.add\<close>,
  \<^verbatim>\<open>self.get_batch_lineage\<close> and the \<^verbatim>\<open>dict.get\<close> in it): 1 when only Python
  frames count against the limit, 2 when calls of builtin methods count too, according to
  the version of the interpreter. A batch name that is already in \<open>visited\<close> is answered
  before any of these calls.

  \<open>visited\<close> is the set passed by the caller (\<open>{}\<close> for the default \<^verbatim>\<open>None\<close>);
  \<^verbatim>\<open>visited.add(batch_name)\<close> followed by \<^verbatim>\<open>visited.copy()\<close> at each recursive
  call is \<open>insert name visited\<close>.
\<close>

fun get_full_lineage_tree ::
  "nat \<Rightarrow> nat \<Rightarrow> 'v analyzer \<Rightarrow> string \<Rightarrow> string set \<Rightarrow> error + 'v lineage_tree" where
  "get_full_lineage_tree helper frames self name visited =
     (if frames = 0 then Inl RecursionError
      else if name \<in> visited then Inr (Cycle_Detected name None)
      else if frames \<le> helper then Inl RecursionError
      else (case get_batch_lineage self name of
              None \<Rightarrow> Inr (Not_Found name None)
            | Some lineage \<Rightarrow>
                (case sub_trees
                        (map (\<lambda>p. case get_full_lineage_tree helper (frames - 1) self (fst p)
                                          (insert name visited) of
                                     Inl e \<Rightarrow> Inl e
                                   | Inr sub_tree \<Rightarrow>
                                       Inr (set_gallons_contributed (snd p) sub_tree))
                             (contributing_batches lineage)) of
                   Inl e \<Rightarrow> Inl e
                 | Inr trees \<Rightarrow>
                     Inr (Lineage_Node name (current_volume lineage) (is_on_hand lineage)
                            (has_left_inventory lineage) trees None))))"

text \<open>
  The two enumerations. The order is that of the dictionary, which Python takes from
  the iteration order of a set.
\<close>

definition get_all_on_hand_batches :: "'v analyzer \<Rightarrow> string list" where
  "get_all_on_hand_batches self =
     map fst (filter (\<lambda>(name, lineage). is_on_hand lineage) (batch_lineages self))"

definition get_all_shipped_batches :: "'v analyzer \<Rightarrow> string list" where
  "get_all_shipped_batches self =
     map fst (filter (\<lambda>(name, lineage). has_left_inventory lineage \<and> \<not> is_on_hand lineage)
                (batch_lineages self))"

text \<open>
  \<^verbatim>\<open>export_lineage_to_csv\<close>: the list \<open>rows\<close> that the method builds and then hands
  to \<^verbatim>\<open>csv.DictWriter\<close> (nothing is written when it is empty). The integer \<open>0\<close> of an
  origin row is the zero of \<open>'v\<close>.
\<close>

record 'v edge_row =
  Destination_Batch :: string
  Source_Batch :: string
  Gallons_Contributed :: 'v
  Destination_Current_Volume :: 'v
  Destination_Is_On_Hand :: bool
  Destination_Has_Left :: bool

definition lineage_rows :: "string \<Rightarrow> ('v::zero) batch_lineage \<Rightarrow> 'v edge_row list" where
  "lineage_rows name lineage =
     (if contributing_batches lineage \<noteq> []
      then map (\<lambda>(contrib_batch, gallons).
                  \<lparr> Destination_Batch = name,
                    Source_Batch = contrib_batch,
                    Gallons_Contributed = gallons,
                    Destination_Current_Volume = current_volume lineage,
                    Destination_Is_On_Hand = is_on_hand lineage,
                    Destination_Has_Left = has_left_inventory lineage \<rparr>)
               (contributing_batches lineage)
      else [\<lparr> Destination_Batch = name,
              Source_Batch = '''',
              Gallons_Contributed = 0,
              Destination_Current_Volume = current_volume lineage,
              Destination_Is_On_Hand = is_on_hand lineage,
              Destination_Has_Left = has_left_inventory lineage \<rparr>])"

definition export_lineage_to_csv :: "('v::zero) analyzer \<Rightarrow> string option \<Rightarrow> 'v edge_row list" where
  "export_lineage_to_csv self batch_filter =
     concat (map (\<lambda>(name, lineage).
                    if batch_filter = Some ''on-hand'' \<and> \<not> is_on_hand lineage then []
                    else if batch_filter = Some ''shipped'' \<and> \<not> has_left_inventory lineage then []
                    else lineage_rows name lineage)
                 (batch_lineages self))"

declare get_full_lineage_tree.simps [simp del]

subsection \<open>The effect of a record on one batch\<close>

text \<open>
  The next two definitions are not functions of the program. They describe what the two
  passes compute, one batch at a time: \<open>batch_names\<close> is the set of names that the
  first pass collects, and \<open>effect_on b txn\<close> is what one iteration of the second pass
  does to the lineage stored under \<open>b\<close>. The lemmas \<open>map_of_process_transaction\<close> and
  \<open>get_batch_lineage_ingest\<close> below prove that the program computes exactly this.
\<close>

definition batch_names :: "'v transaction list \<Rightarrow> string set" where
  "batch_names ts =
     {b. b \<noteq> '''' \<and> (\<exists>t \<in> set ts. from_batch t = b \<or> to_batch t = b)}"

definition effect_on :: "string \<Rightarrow> ('v::{zero,plus}) transaction \<Rightarrow> 'v batch_lineage \<Rightarrow> 'v batch_lineage" where
  "effect_on b txn l =
     (if op_type txn = ''On-Hand'' then
        (if to_batch txn = b
         then l \<lparr> is_on_hand := True \<rparr> \<lparr> current_volume := net txn \<rparr> else l)
      else if op_type txn \<in> set [''Transfer'', ''Blend'', ''Receipt''] then
        (let l1 = (if to_batch txn \<noteq> '''' \<and> to_batch txn = b
                   then add_incoming_transaction l txn (net txn) else l)
         in if from_batch txn \<noteq> '''' \<and> from_batch txn = b
            then (let l2 = add_outgoing_transaction l1 txn
                  in if op_type txn \<noteq> ''Receipt''
                     then l2 \<lparr> has_left_inventory := True \<rparr> else l2)
            else l1)
      else if op_type txn = ''Adjustment'' then
        (if to_batch txn \<noteq> '''' \<and> to_batch txn = b
         then add_incoming_transaction l txn (net txn) else l)
      else l)"

text \<open>
  What \<^verbatim>\<open>+=\<close> leaves under a key of \<open>contributing_batches\<close>, given the entry
  \<open>e\<close> found there before (\<open>None\<close> when the key was absent and has just been set to
  \<open>0.0\<close>).
\<close>

definition entry_plus :: "('v::{zero,plus}) option \<Rightarrow> 'v \<Rightarrow> 'v option" where
  "entry_plus e g = Some ((case e of None \<Rightarrow> 0 | Some v \<Rightarrow> v) + g)"

subsection \<open>Concrete ledgers\<close>

text \<open>
  A ledger record with the given operation type, source batch, destination batch and net
  volume, and every other column empty; used to write down concrete ledgers.
\<close>

definition ledger_record :: "string \<Rightarrow> string \<Rightarrow> string \<Rightarrow> 'v \<Rightarrow> ('v::zero) transaction" where
  "ledger_record ty src dst n =
     \<lparr> op_date = '''', op_id = '''', op_type = ty, from_vessel = '''', from_batch = src,
       to_vessel = '''', to_batch = dst, net = n, loss_gain_amount = 0,
       loss_gain_reason = '''', winery = '''' \<rparr>"

text \<open>
  A ledger in which batch \<open>A\<close> is the source of a Transfer and also the destination of
  an On-Hand record.
\<close>

definition on_hand_source_ledger :: "real transaction list" where
  "on_hand_source_ledger =
     [ledger_record ''Transfer'' ''A'' ''B'' 5, ledger_record ''On-Hand'' '''' ''A'' 2]"

text \<open>
  Further ledgers: two transfers from \<open>A\<close> to \<open>B\<close>; a receipt from \<open>A\<close> beside a
  transfer from \<open>C\<close>; and records into \<open>B\<close> whose source is \<open>B\<close> itself, empty,
  or \<open>A\<close>.
\<close>

definition two_transfers_ledger :: "real transaction list" where
  "two_transfers_ledger =
     [ledger_record ''Transfer'' ''A'' ''B'' 5, ledger_record ''Transfer'' ''A'' ''B'' 3]"

definition receipt_ledger :: "real transaction list" where
  "receipt_ledger =
     [ledger_record ''Receipt'' ''A'' ''B'' 5, ledger_record ''Transfer'' ''C'' ''B'' 2]"

definition self_transfer_ledger :: "real transaction list" where
  "self_transfer_ledger =
     [ledger_record ''Transfer'' ''B'' ''B'' 4, ledger_record ''Receipt'' '''' ''B'' 1,
      ledger_record ''Blend'' ''A'' ''B'' 2]"

subsection \<open>Measures on lineage trees\<close>

text \<open>
  The number of nested \<^verbatim>\<open>contributing_batches\<close> levels of a tree, which is the depth
  the recursion reached.
\<close>

fun tree_depth :: "'v lineage_tree \<Rightarrow> nat" where
  "tree_depth (Cycle_Detected _ _) = 0"
| "tree_depth (Not_Found _ _) = 0"
| "tree_depth (Lineage_Node _ _ _ _ cs _) = Suc (fold max (map tree_depth cs) 0)"

text \<open>
  \<open>path_marks path t\<close>: in the tree \<open>t\<close>, whose root hangs below the nodes named in
  \<open>path\<close>, the \<open>cycle_detected\<close> leaves are exactly the nodes whose name is in
  \<open>path\<close> or is the name of an ancestor within \<open>t\<close>.
\<close>

fun path_marks :: "string set \<Rightarrow> 'v lineage_tree \<Rightarrow> bool" where
  "path_marks path (Cycle_Detected n _) = (n \<in> path)"
| "path_marks path (Not_Found n _) = (n \<notin> path)"
| "path_marks path (Lineage_Node n _ _ _ cs _) =
     (n \<notin> path \<and> list_all (path_marks (insert n path)) cs)"


definition diamond_ledger :: "real transaction list" where
  "diamond_ledger =
     [ledger_record ''Transfer'' ''A'' ''B'' 1, ledger_record ''Transfer'' ''A'' ''C'' 2,
      ledger_record ''Blend'' ''B'' ''D'' 3, ledger_record ''Blend'' ''C'' ''D'' 4]"

text \<open>
  A long chain: the batches \<open>b\<close>, \<open>bb\<close>, \<open>bbb\<close>, \<dots>, each transferred into the next.
  \<open>chain_ledger n\<close> has \<open>n\<close> records and \<open>n + 1\<close> batches.
\<close>

definition batch_no :: "nat \<Rightarrow> string" where
  "batch_no k = replicate (Suc k) CHR ''b''"


text \<open>
  The two transfers of 5.0 and 3.0 gallons from \<open>A\<close> to \<open>B\<close>, as floats.
\<close>

definition two_float_transfers_ledger :: "pyfloat transaction list" where
  "two_float_transfers_ledger =
     [ledger_record ''Transfer'' ''A'' ''B'' (Finite 5),
      ledger_record ''Transfer'' ''A'' ''B'' (Finite 3)]"

section \<open>Properties\<close>

subsection \<open>The two passes, batch by batch\<close>

lemma set_set_add: "set (set_add x xs) = insert x (set xs)"
  by (auto simp: set_add_def)

lemma set_add_batches:
  "set (add_batches t acc) =
     set acc \<union> (if from_batch t \<noteq> [] then {from_batch t} else {}) \<union>
       (if to_batch t \<noteq> [] then {to_batch t} else {})"
  by (auto simp: add_batches_def set_set_add)

lemma batch_names_Cons:
  "batch_names (t # ts) =
     (if from_batch t \<noteq> [] then {from_batch t} else {}) \<union>
     (if to_batch t \<noteq> [] then {to_batch t} else {}) \<union> batch_names ts"
  by (auto simp: batch_names_def)

lemma collect_fold_set: "set (fold add_batches ts acc) = set acc \<union> batch_names ts"
proof (induction ts arbitrary: acc)
  case Nil
  show ?case by (simp add: batch_names_def)
next
  case (Cons t ts)
  show ?case
    unfolding fold_simps Cons.IH set_add_batches batch_names_Cons by blast
qed

lemma set_collect_batches: "set (collect_batches ts) = batch_names ts"
  by (simp add: collect_batches_def collect_fold_set)

lemma map_of_create_lineages:
  "map_of (create_lineages bs d) b = (if b \<in> set bs then Some (BatchLineage b) else map_of d b)"
  unfolding create_lineages_def
  by (induction bs arbitrary: d) (auto simp: update_conv')

lemma keys_create_lineages:
  "fst ` set (create_lineages bs d) = set bs \<union> fst ` set d"
  unfolding create_lineages_def
  by (induction bs arbitrary: d) (auto simp: dom_update)

lemma distinct_create_lineages:
  "distinct (map fst d) \<Longrightarrow> distinct (map fst (create_lineages bs d))"
  unfolding create_lineages_def
  by (induction bs arbitrary: d) (auto simp: distinct_update)

lemma has_key_map_of: "has_key d k \<longleftrightarrow> map_of d k \<noteq> None"
  by (simp add: has_key_def map_of_eq_None_iff)

lemma map_of_map_entry_at:
  "map_of (AList.map_entry k f d) b = (if b = k then map_option f (map_of d k) else map_of d b)"
  by (simp add: map_of_map_entry split: option.splits)

lemma has_key_map_entry: "has_key (AList.map_entry k f d) k' = has_key d k'"
  by (simp add: has_key_def dom_map_entry)

lemma map_of_incoming_side:
  "map_of (incoming_side txn d) b =
     map_option (\<lambda>l. if to_batch txn \<noteq> '''' \<and> to_batch txn = b
                      then add_incoming_transaction l txn (net txn) else l) (map_of d b)"
  by (cases "map_of d b") (auto simp: incoming_side_def map_of_map_entry_at has_key_map_of)

lemma has_key_incoming_side: "has_key (incoming_side txn d) k = has_key d k"
  by (simp add: incoming_side_def has_key_map_entry)

lemma map_of_process_transaction:
  "map_of (process_transaction txn d) b = map_option (effect_on b txn) (map_of d b)"
  by (cases "map_of d b")
     (auto simp: process_transaction_def effect_on_def Let_def map_of_map_entry_at
        map_of_incoming_side has_key_incoming_side has_key_map_of)

lemma keys_process_transaction:
  "fst ` set (process_transaction txn d) = fst ` set d"
  by (simp add: process_transaction_def incoming_side_def Let_def dom_map_entry)

lemma distinct_process_transaction:
  "distinct (map fst d) \<Longrightarrow> distinct (map fst (process_transaction txn d))"
  by (simp add: process_transaction_def incoming_side_def Let_def distinct_map_entry)

lemma map_of_fold_process:
  "map_of (fold process_transaction ts d) b = map_option (fold (effect_on b) ts) (map_of d b)"
proof (induction ts arbitrary: d)
  case Nil
  show ?case by (cases "map_of d b") simp_all
next
  case (Cons t ts)
  show ?case
    by (cases "map_of d b") (simp_all add: Cons.IH map_of_process_transaction)
qed

lemma keys_fold_process: "fst ` set (fold process_transaction ts d) = fst ` set d"
  by (induction ts arbitrary: d) (simp_all add: keys_process_transaction)

lemma distinct_fold_process:
  "distinct (map fst d) \<Longrightarrow> distinct (map fst (fold process_transaction ts d))"
  by (induction ts arbitrary: d) (simp_all add: distinct_process_transaction)

lemma batch_lineages_ingest:
  "batch_lineages (ingest ts) =
     fold process_transaction ts (create_lineages (collect_batches ts) [])"
  by (simp add: ingest_def build_lineage_def init_analyzer_def Let_def)

lemma get_batch_lineage_ingest:
  "get_batch_lineage (ingest ts) b =
     (if b \<in> batch_names ts then Some (fold (effect_on b) ts (BatchLineage b)) else None)"
  by (simp add: get_batch_lineage_def batch_lineages_ingest map_of_fold_process
      map_of_create_lineages set_collect_batches)

lemma keys_ingest: "fst ` set (batch_lineages (ingest ts)) = batch_names ts"
  by (simp add: batch_lineages_ingest keys_fold_process keys_create_lineages set_collect_batches)

lemma distinct_keys_ingest: "distinct (map fst (batch_lineages (ingest ts)))"
  by (simp add: batch_lineages_ingest distinct_fold_process distinct_create_lineages)

lemma batch_name_add_incoming [simp]:
  "batch_name (add_incoming_transaction l t g) = batch_name l"
  by (simp add: add_incoming_transaction_def Let_def)

lemma batch_name_effect_on [simp]: "batch_name (effect_on b t l) = batch_name l"
  by (simp add: effect_on_def add_outgoing_transaction_def Let_def)

lemma batch_name_fold_effect_on [simp]: "batch_name (fold (effect_on b) ts l) = batch_name l"
  by (induction ts arbitrary: l) simp_all

lemma is_on_hand_effect_on:
  "is_on_hand (effect_on b t l) = (is_on_hand l \<or> (op_type t = ''On-Hand'' \<and> to_batch t = b))"
  by (simp add: effect_on_def add_incoming_transaction_def add_outgoing_transaction_def Let_def)

lemma current_volume_effect_on:
  "current_volume (effect_on b t l) =
     (if op_type t = ''On-Hand'' \<and> to_batch t = b then net t else current_volume l)"
  by (simp add: effect_on_def add_incoming_transaction_def add_outgoing_transaction_def Let_def)

lemma has_left_effect_on:
  "has_left_inventory (effect_on b t l) =
     (has_left_inventory l \<or>
      (b \<noteq> '''' \<and> from_batch t = b \<and> op_type t \<in> set [''Transfer'', ''Blend'']))"
  by (auto simp: effect_on_def add_incoming_transaction_def add_outgoing_transaction_def Let_def)

lemma outgoing_effect_on:
  "outgoing_transactions (effect_on b t l) =
     outgoing_transactions l @
     (if b \<noteq> '''' \<and> from_batch t = b \<and> op_type t \<in> set [''Transfer'', ''Blend'', ''Receipt'']
      then [t] else [])"
  by (auto simp: effect_on_def add_incoming_transaction_def add_outgoing_transaction_def Let_def)

lemma incoming_effect_on:
  "contributing_transactions (effect_on b t l) =
     contributing_transactions l @
     (if b \<noteq> '''' \<and> to_batch t = b \<and>
         op_type t \<in> set [''Transfer'', ''Blend'', ''Receipt'', ''Adjustment'']
      then [t] else [])"
  by (auto simp: effect_on_def add_incoming_transaction_def add_outgoing_transaction_def Let_def)

lemma is_on_hand_fold:
  "is_on_hand (fold (effect_on b) ts l) =
     (is_on_hand l \<or> (\<exists>t \<in> set ts. op_type t = ''On-Hand'' \<and> to_batch t = b))"
  by (induction ts arbitrary: l) (auto simp: is_on_hand_effect_on)

lemma current_volume_fold:
  "current_volume (fold (effect_on b) ts l) =
     (if filter (\<lambda>t. op_type t = ''On-Hand'' \<and> to_batch t = b) ts = [] then current_volume l
      else net (last (filter (\<lambda>t. op_type t = ''On-Hand'' \<and> to_batch t = b) ts)))"
  by (induction ts arbitrary: l) (simp_all add: current_volume_effect_on)

lemma has_left_fold:
  "has_left_inventory (fold (effect_on b) ts l) =
     (has_left_inventory l \<or>
      (b \<noteq> '''' \<and> (\<exists>t \<in> set ts. from_batch t = b \<and> op_type t \<in> set [''Transfer'', ''Blend''])))"
  by (induction ts arbitrary: l) (simp_all add: has_left_effect_on, blast+)

lemma outgoing_fold:
  "outgoing_transactions (fold (effect_on b) ts l) =
     outgoing_transactions l @
     (if b \<noteq> '''' then filter (\<lambda>t. from_batch t = b \<and> op_type t \<in> set [''Transfer'', ''Blend'', ''Receipt'']) ts else [])"
  by (induction ts arbitrary: l) (auto simp: outgoing_effect_on)

lemma incoming_fold:
  "contributing_transactions (fold (effect_on b) ts l) =
     contributing_transactions l @
     (if b \<noteq> '''' then filter (\<lambda>t. to_batch t = b \<and> op_type t \<in> set [''Transfer'', ''Blend'', ''Receipt'', ''Adjustment'']) ts else [])"
  by (induction ts arbitrary: l) (auto simp: incoming_effect_on)

lemma keys_add_incoming:
  "fst ` set (contributing_batches (add_incoming_transaction l t g)) =
     fst ` set (contributing_batches l) \<union>
     (if from_batch t \<noteq> '''' \<and> from_batch t \<noteq> batch_name l then {from_batch t} else {})"
proof (cases "from_batch t \<noteq> '''' \<and> from_batch t \<noteq> batch_name l")
  case False
  then show ?thesis by (auto simp: add_incoming_transaction_def Let_def)
next
  case True
  show ?thesis
  proof (cases "map_of (contributing_batches l) (from_batch t)")
    case None
    then show ?thesis
      using True by (simp add: add_incoming_transaction_def Let_def dom_map_entry dom_update)
  next
    case (Some y)
    then have "from_batch t \<in> fst ` set (contributing_batches l)"
      by (metis map_of_eq_None_iff option.distinct(1))
    then show ?thesis
      using True Some
      by (simp add: add_incoming_transaction_def Let_def dom_map_entry insert_absorb)
  qed
qed

lemma contributing_batches_add_outgoing [simp]:
  "contributing_batches (add_outgoing_transaction l t) = contributing_batches l"
  by (simp add: add_outgoing_transaction_def)

lemma contributing_batches_effect_on:
  "contributing_batches (effect_on b t l) =
     (if b \<noteq> '''' \<and> to_batch t = b \<and>
         op_type t \<in> set [''Transfer'', ''Blend'', ''Receipt'', ''Adjustment'']
      then contributing_batches (add_incoming_transaction l t (net t))
      else contributing_batches l)"
  by (auto simp: effect_on_def Let_def)

lemma map_of_add_incoming:
  "map_of (contributing_batches (add_incoming_transaction l t g)) a =
     (if from_batch t = a \<and> a \<noteq> '''' \<and> a \<noteq> batch_name l
      then entry_plus (map_of (contributing_batches l) a) g
      else map_of (contributing_batches l) a)"
  by (auto simp: add_incoming_transaction_def Let_def map_of_map_entry_at update_conv'
      entry_plus_def split: option.splits)

lemma keys_effect_on:
  "fst ` set (contributing_batches (effect_on b t l)) \<subseteq>
     fst ` set (contributing_batches l) \<union> ({from_batch t} - {[], batch_name l})"
proof (cases "b \<noteq> [] \<and> to_batch t = b \<and>
         op_type t \<in> set [''Transfer'', ''Blend'', ''Receipt'', ''Adjustment'']")
  case True
  then have eq: "contributing_batches (effect_on b t l) =
      contributing_batches (add_incoming_transaction l t (net t))"
    unfolding contributing_batches_effect_on by (rule if_P)
  show ?thesis unfolding eq keys_add_incoming by auto
next
  case False
  then have eq: "contributing_batches (effect_on b t l) = contributing_batches l"
    unfolding contributing_batches_effect_on by (rule if_not_P)
  show ?thesis unfolding eq by blast
qed

lemma keys_fold_effect_on:
  "fst ` set (contributing_batches (fold (effect_on b) ts l)) \<subseteq>
     fst ` set (contributing_batches l) \<union> (from_batch ` set ts - {'''', batch_name l})"
proof (induction ts arbitrary: l)
  case Nil
  show ?case by simp
next
  case (Cons t ts)
  have "fst ` set (contributing_batches (fold (effect_on b) ts (effect_on b t l))) \<subseteq>
     fst ` set (contributing_batches (effect_on b t l)) \<union> (from_batch ` set ts - {'''', batch_name l})"
    using Cons.IH [of "effect_on b t l"] by simp
  moreover note keys_effect_on [of b t l]
  ultimately show ?case by (simp only: fold_simps set_simps image_insert) blast
qed

lemma map_of_effect_on:
  "map_of (contributing_batches (effect_on b t l)) a =
     (if b \<noteq> '''' \<and> to_batch t = b \<and>
         op_type t \<in> set [''Transfer'', ''Blend'', ''Receipt'', ''Adjustment''] \<and>
         from_batch t = a \<and> a \<noteq> '''' \<and> a \<noteq> batch_name l
      then entry_plus (map_of (contributing_batches l) a) (net t)
      else map_of (contributing_batches l) a)"
  by (auto simp: contributing_batches_effect_on map_of_add_incoming)

lemma map_of_fold_effect_on:
  assumes "b \<noteq> ''''" "a \<noteq> ''''" "a \<noteq> batch_name l"
  shows "map_of (contributing_batches (fold (effect_on b) ts l)) a =
     fold (\<lambda>t e. entry_plus e (net t))
       (filter (\<lambda>t. from_batch t = a \<and> to_batch t = b \<and>
                  op_type t \<in> set [''Transfer'', ''Blend'', ''Receipt'', ''Adjustment'']) ts)
       (map_of (contributing_batches l) a)"
  using assms
proof (induction ts arbitrary: l)
  case Nil
  show ?case by simp
next
  case (Cons t ts)
  have "a \<noteq> batch_name (effect_on b t l)" using Cons.prems by simp
  from Cons.IH [OF Cons.prems(1,2) this] show ?case
    using Cons.prems by (auto simp: map_of_effect_on)
qed

subsection \<open>On-Hand records\<close>

text \<open>
  C5. For every record sequence and every batch \<open>X\<close> (a non-empty name) that is the
  destination of at least one On-Hand record, the lineage of \<open>X\<close> after ingestion exists,
  its \<open>is_on_hand\<close> flag is true and its \<open>current_volume\<close> is the net volume of the
  last On-Hand record of the sequence whose destination is \<open>X\<close>, whatever other records
  touch \<open>X\<close>.
\<close>

theorem on_hand_last_writer_wins:
  assumes "X \<noteq> ''''"
    and "filter (\<lambda>t. op_type t = ''On-Hand'' \<and> to_batch t = X) ts \<noteq> []"
  shows "\<exists>l. get_batch_lineage (ingest ts) X = Some l \<and> is_on_hand l \<and>
           current_volume l =
             net (last (filter (\<lambda>t. op_type t = ''On-Hand'' \<and> to_batch t = X) ts))"
proof -
  from assms(2) obtain t where t: "t \<in> set ts" "op_type t = ''On-Hand''" "to_batch t = X"
    by (auto simp: filter_empty_conv)
  then have "X \<in> batch_names ts"
    using assms(1) by (auto simp: batch_names_def)
  then have "get_batch_lineage (ingest ts) X = Some (fold (effect_on X) ts (BatchLineage X))"
    by (simp add: get_batch_lineage_ingest)
  moreover have "is_on_hand (fold (effect_on X) ts (BatchLineage X))"
    using t by (auto simp: is_on_hand_fold)
  moreover have "current_volume (fold (effect_on X) ts (BatchLineage X)) =
      net (last (filter (\<lambda>t. op_type t = ''On-Hand'' \<and> to_batch t = X) ts))"
    using assms(2) by (simp add: current_volume_fold)
  ultimately show ?thesis by simp
qed

theorem on_hand_last_writer_wins_witness:
  "''X'' \<noteq> '''' \<and>
   filter (\<lambda>t. op_type t = ''On-Hand'' \<and> to_batch t = ''X'')
     [ledger_record ''On-Hand'' '''' ''X'' (7::real),
      ledger_record ''Transfer'' ''X'' ''Y'' 4,
      ledger_record ''On-Hand'' '''' ''X'' 12.5,
      ledger_record ''Blend'' ''W'' ''X'' 3] \<noteq> [] \<and>
   (\<exists>l. get_batch_lineage (ingest
       [ledger_record ''On-Hand'' '''' ''X'' (7::real),
        ledger_record ''Transfer'' ''X'' ''Y'' 4,
        ledger_record ''On-Hand'' '''' ''X'' 12.5,
        ledger_record ''Blend'' ''W'' ''X'' 3]) ''X'' = Some l \<and>
      is_on_hand l \<and> current_volume l = 12.5)"
proof -
  have h1: "''X'' \<noteq> ''''" by simp
  have h2: "filter (\<lambda>t. op_type t = ''On-Hand'' \<and> to_batch t = ''X'')
     [ledger_record ''On-Hand'' '''' ''X'' (7::real),
      ledger_record ''Transfer'' ''X'' ''Y'' 4,
      ledger_record ''On-Hand'' '''' ''X'' 12.5,
      ledger_record ''Blend'' ''W'' ''X'' 3] \<noteq> []"
    by (simp add: ledger_record_def)
  from on_hand_last_writer_wins [OF h1 h2] show ?thesis
    using h1 h2 by (simp add: ledger_record_def)
qed

lemma fold_entry_plus_foldl:
  "fold (\<lambda>t e. entry_plus e (net t)) xs e0 =
     (if xs = [] then e0
      else Some (foldl (+) (case e0 of None \<Rightarrow> 0 | Some v \<Rightarrow> v) (map net xs)))"
  by (induction xs arbitrary: e0) (auto simp: entry_plus_def split: option.splits)

subsection \<open>Contributions\<close>

text \<open>
  C6. Contribution weights accumulate additively across the records with the same source
  and destination. For distinct non-empty batch names \<open>A\<close> and \<open>B\<close>, when at least one
  record of the sequence adds to the entry of \<open>A\<close> in the lineage of \<open>B\<close> (source
  \<open>A\<close>, destination \<open>B\<close>, type Transfer, Blend, Receipt or Adjustment), the lineage of
  \<open>B\<close> maps \<open>A\<close> to what \<^verbatim>\<open>+=\<close> makes of the net volumes of these records, added in
  ledger order to \<open>0.0\<close>; with two such records of net volumes \<open>n1\<close> and \<open>n2\<close> this is
  \<open>(0.0 + n1) + n2\<close>. No law of addition is used, so the statement holds for Python's
  floats; for the two Transfer records of 5.0 and 3.0 gallons the entry is 8.0, which the
  witness computes in floating point.
\<close>

theorem contributions_accumulate:
  fixes ts :: "('v::{zero,plus}) transaction list"
  assumes "A \<noteq> ''''" and "B \<noteq> ''''" and "A \<noteq> B"
    and "filter (\<lambda>t. from_batch t = A \<and> to_batch t = B \<and>
            op_type t \<in> set [''Transfer'', ''Blend'', ''Receipt'', ''Adjustment'']) ts \<noteq> []"
  shows "\<exists>l. get_batch_lineage (ingest ts) B = Some l \<and>
           map_of (contributing_batches l) A =
             Some (foldl (+) 0 (map net (filter (\<lambda>t. from_batch t = A \<and> to_batch t = B \<and>
               op_type t \<in> set [''Transfer'', ''Blend'', ''Receipt'', ''Adjustment'']) ts))) \<and>
           (\<forall>n1 n2. map net (filter (\<lambda>t. from_batch t = A \<and> to_batch t = B \<and>
               op_type t \<in> set [''Transfer'', ''Blend'', ''Receipt'', ''Adjustment'']) ts) = [n1, n2]
            \<longrightarrow> map_of (contributing_batches l) A = Some ((0 + n1) + n2))"
proof -
  let ?sel = "\<lambda>t::'v transaction. from_batch t = A \<and> to_batch t = B \<and>
            op_type t \<in> set [''Transfer'', ''Blend'', ''Receipt'', ''Adjustment'']"
  from assms(4) obtain t where "t \<in> set ts" "to_batch t = B"
    by (auto simp: filter_empty_conv)
  then have "B \<in> batch_names ts"
    using assms(2) by (auto simp: batch_names_def)
  then have l: "get_batch_lineage (ingest ts) B = Some (fold (effect_on B) ts (BatchLineage B))"
    by (simp add: get_batch_lineage_ingest)
  have nm: "A \<noteq> batch_name (BatchLineage B :: 'v batch_lineage)"
    using assms(3) by (simp add: BatchLineage_def)
  have "map_of (contributing_batches (fold (effect_on B) ts (BatchLineage B))) A =
      fold (\<lambda>t e. entry_plus e (net t)) (filter ?sel ts)
        (map_of (contributing_batches (BatchLineage B :: 'v batch_lineage)) A)"
    by (rule map_of_fold_effect_on [OF assms(2) assms(1) nm])
  also have "\<dots> = Some (foldl (+) 0 (map net (filter ?sel ts)))"
    using assms(4) by (simp add: fold_entry_plus_foldl BatchLineage_def)
  finally have "map_of (contributing_batches (fold (effect_on B) ts (BatchLineage B))) A =
      Some (foldl (+) 0 (map net (filter ?sel ts)))" .
  then show ?thesis using l by auto
qed

theorem contributions_accumulate_witness:
  "''A'' \<noteq> '''' \<and> ''B'' \<noteq> '''' \<and> ''A'' \<noteq> ''B'' \<and>
   map net (filter (\<lambda>t. from_batch t = ''A'' \<and> to_batch t = ''B'' \<and>
            op_type t \<in> set [''Transfer'', ''Blend'', ''Receipt'', ''Adjustment''])
     two_float_transfers_ledger) = [Finite 5, Finite 3] \<and>
   (0 + Finite 5) + Finite 3 = Finite 8 \<and>
   (\<exists>l. get_batch_lineage (ingest two_float_transfers_ledger) ''B'' = Some l \<and>
        map_of (contributing_batches l) ''A'' = Some (Finite 8))"
proof -
  have h1: "''A'' \<noteq> ''''" and h2: "''B'' \<noteq> ''''" and h3: "''A'' \<noteq> ''B''" by simp_all
  have h5: "map net (filter (\<lambda>t. from_batch t = ''A'' \<and> to_batch t = ''B'' \<and>
            op_type t \<in> set [''Transfer'', ''Blend'', ''Receipt'', ''Adjustment''])
     two_float_transfers_ledger) = [Finite 5, Finite 3]"
    by (simp add: two_float_transfers_ledger_def ledger_record_def)
  then have h4: "filter (\<lambda>t. from_batch t = ''A'' \<and> to_batch t = ''B'' \<and>
            op_type t \<in> set [''Transfer'', ''Blend'', ''Receipt'', ''Adjustment''])
     two_float_transfers_ledger \<noteq> []"
    by auto
  have s: "(0 + Finite 5) + Finite 3 = Finite 8" by code_simp
  from contributions_accumulate [OF h1 h2 h3 h4] h5 s h1 h2 h3 show ?thesis
    by (metis (no_types, lifting))
qed

subsection \<open>Departures\<close>

text \<open>
  C7. Receipts are not treated as departures. For every batch \<open>A\<close> of the graph, the
  outgoing list of \<open>A\<close> holds, in ledger order, the Transfer, Blend and Receipt records
  with source \<open>A\<close>, so a Receipt is appended to it; and \<open>has_left_inventory\<close> of \<open>A\<close>
  is true exactly when some Transfer or Blend record has source \<open>A\<close>, so a Transfer or
  a Blend sets the flag and a Receipt does not.
\<close>

theorem receipts_are_not_departures:
  assumes "get_batch_lineage (ingest ts) A = Some l"
  shows "outgoing_transactions l =
           filter (\<lambda>t. from_batch t = A \<and>
                     op_type t \<in> set [''Transfer'', ''Blend'', ''Receipt'']) ts \<and>
         (has_left_inventory l \<longleftrightarrow>
           (\<exists>t \<in> set ts. from_batch t = A \<and> op_type t \<in> set [''Transfer'', ''Blend'']))"
proof -
  from assms have mem: "A \<in> batch_names ts"
    and l: "l = fold (effect_on A) ts (BatchLineage A)"
    by (auto simp: get_batch_lineage_ingest split: if_splits)
  from mem have ne: "A \<noteq> ''''" by (simp add: batch_names_def)
  show ?thesis
    unfolding l using ne by (simp add: outgoing_fold has_left_fold BatchLineage_def)
qed

theorem receipts_are_not_departures_witness:
  "get_batch_lineage (ingest receipt_ledger) ''A'' =
     Some \<lparr> batch_name = ''A'', contributing_batches = [], contributing_transactions = [],
            outgoing_transactions = [ledger_record ''Receipt'' ''A'' ''B'' 5],
            current_volume = 0, is_on_hand = False, has_left_inventory = False \<rparr> \<and>
   [ledger_record ''Receipt'' ''A'' ''B'' (5::real)] =
     filter (\<lambda>t. from_batch t = ''A'' \<and>
               op_type t \<in> set [''Transfer'', ''Blend'', ''Receipt'']) receipt_ledger \<and>
   \<not> (\<exists>t \<in> set receipt_ledger.
         from_batch t = ''A'' \<and> op_type t \<in> set [''Transfer'', ''Blend''])"
proof -
  have h: "get_batch_lineage (ingest receipt_ledger) ''A'' =
     Some \<lparr> batch_name = ''A'', contributing_batches = [], contributing_transactions = [],
            outgoing_transactions = [ledger_record ''Receipt'' ''A'' ''B'' 5],
            current_volume = 0, is_on_hand = False, has_left_inventory = False \<rparr>"
    by code_simp
  from receipts_are_not_departures [OF h] h show ?thesis by simp
qed

text \<open>
  C9. After any ingestion, for every batch \<open>B\<close> of the graph, neither \<open>B\<close> itself nor
  the empty string is a key of the contributing-batches mapping of \<open>B\<close>; the incoming
  transaction list of \<open>B\<close> nevertheless holds every Transfer, Blend, Receipt and
  Adjustment record with destination \<open>B\<close>, in ledger order, also those whose source is
  \<open>B\<close> or empty.
\<close>

theorem no_self_or_empty_contributor:
  assumes "get_batch_lineage (ingest ts) B = Some l"
  shows "B \<notin> fst ` set (contributing_batches l) \<and>
         '''' \<notin> fst ` set (contributing_batches l) \<and>
         contributing_transactions l =
           filter (\<lambda>t. to_batch t = B \<and>
                     op_type t \<in> set [''Transfer'', ''Blend'', ''Receipt'', ''Adjustment'']) ts"
proof -
  from assms have mem: "B \<in> batch_names ts"
    and l: "l = fold (effect_on B) ts (BatchLineage B)"
    by (auto simp: get_batch_lineage_ingest split: if_splits)
  from mem have ne: "B \<noteq> ''''" by (simp add: batch_names_def)
  have "fst ` set (contributing_batches l) \<subseteq> from_batch ` set ts - {'''', B}"
    unfolding l using keys_fold_effect_on [of B ts "BatchLineage B"]
    by (simp add: BatchLineage_def)
  moreover have "contributing_transactions l =
           filter (\<lambda>t. to_batch t = B \<and>
                     op_type t \<in> set [''Transfer'', ''Blend'', ''Receipt'', ''Adjustment'']) ts"
    unfolding l using ne by (simp add: incoming_fold BatchLineage_def)
  ultimately show ?thesis by blast
qed

theorem no_self_or_empty_contributor_witness:
  "get_batch_lineage (ingest self_transfer_ledger) ''B'' =
     Some \<lparr> batch_name = ''B'', contributing_batches = [(''A'', 2)],
            contributing_transactions =
              [ledger_record ''Transfer'' ''B'' ''B'' 4, ledger_record ''Receipt'' '''' ''B'' 1,
               ledger_record ''Blend'' ''A'' ''B'' 2],
            outgoing_transactions = [ledger_record ''Transfer'' ''B'' ''B'' 4],
            current_volume = 0, is_on_hand = False, has_left_inventory = True \<rparr> \<and>
   ''B'' \<notin> fst ` set [(''A'', 2::real)] \<and> '''' \<notin> fst ` set [(''A'', 2::real)] \<and>
   [ledger_record ''Transfer'' ''B'' ''B'' 4, ledger_record ''Receipt'' '''' ''B'' 1,
    ledger_record ''Blend'' ''A'' ''B'' 2] =
     filter (\<lambda>t. to_batch t = ''B'' \<and>
               op_type t \<in> set [''Transfer'', ''Blend'', ''Receipt'', ''Adjustment''])
       self_transfer_ledger"
proof -
  have h: "get_batch_lineage (ingest self_transfer_ledger) ''B'' =
     Some \<lparr> batch_name = ''B'', contributing_batches = [(''A'', 2)],
            contributing_transactions =
              [ledger_record ''Transfer'' ''B'' ''B'' 4, ledger_record ''Receipt'' '''' ''B'' 1,
               ledger_record ''Blend'' ''A'' ''B'' 2],
            outgoing_transactions = [ledger_record ''Transfer'' ''B'' ''B'' 4],
            current_volume = 0, is_on_hand = False, has_left_inventory = True \<rparr>"
    by code_simp
  from no_self_or_empty_contributor [OF h] h show ?thesis by simp
qed

lemma lookup_in_distinct:
  assumes "distinct (map fst d)"
  shows "map_of d k = Some v \<longleftrightarrow> (k, v) \<in> set d"
  using assms by (metis map_of_SomeD map_of_is_SomeI)

lemma lineage_rows_dest: "Destination_Batch ` set (lineage_rows name l) = {name}"
  by (cases "contributing_batches l") (auto simp: lineage_rows_def image_iff)

lemma export_destinations:
  "Destination_Batch ` set (export_lineage_to_csv self bf) =
     fst ` {p \<in> set (batch_lineages self).
              (bf = Some ''on-hand'' \<longrightarrow> is_on_hand (snd p)) \<and>
              (bf = Some ''shipped'' \<longrightarrow> has_left_inventory (snd p))}"
proof -
  have "Destination_Batch ` set (concat (map (\<lambda>(name, lineage).
                    if bf = Some ''on-hand'' \<and> \<not> is_on_hand lineage then []
                    else if bf = Some ''shipped'' \<and> \<not> has_left_inventory lineage then []
                    else lineage_rows name lineage) d)) =
     fst ` {p \<in> set d.
              (bf = Some ''on-hand'' \<longrightarrow> is_on_hand (snd p)) \<and>
              (bf = Some ''shipped'' \<longrightarrow> has_left_inventory (snd p))}" for d
  proof (induction d)
    case Nil
    show ?case by simp
  next
    case (Cons p d)
    obtain n l where p: "p = (n, l)" by (cases p)
    have "{q \<in> set (p # d). (bf = Some ''on-hand'' \<longrightarrow> is_on_hand (snd q)) \<and>
              (bf = Some ''shipped'' \<longrightarrow> has_left_inventory (snd q))} =
          (if (bf = Some ''on-hand'' \<longrightarrow> is_on_hand l) \<and>
              (bf = Some ''shipped'' \<longrightarrow> has_left_inventory l) then {p} else {}) \<union>
          {q \<in> set d. (bf = Some ''on-hand'' \<longrightarrow> is_on_hand (snd q)) \<and>
              (bf = Some ''shipped'' \<longrightarrow> has_left_inventory (snd q))}"
      unfolding p by auto
    then show ?case
      using Cons.IH unfolding p by (simp add: image_Un lineage_rows_dest)
  qed
  from this [of "batch_lineages self"] show ?thesis
    unfolding export_lineage_to_csv_def .
qed

subsection \<open>Shipped batches and the edge export\<close>

text \<open>
  C8. For every ingested ledger, \<open>get_all_shipped_batches\<close> returns, without repetition,
  exactly the batch names whose lineage has \<open>has_left_inventory\<close> true and
  \<open>is_on_hand\<close> false. In particular a batch (a non-empty name) that is the source of at
  least one Transfer record and the destination of no On-Hand record is among them.
\<close>

theorem shipped_batches_exact:
  "set (get_all_shipped_batches (ingest ts)) =
     {b. \<exists>l. get_batch_lineage (ingest ts) b = Some l \<and>
              has_left_inventory l \<and> \<not> is_on_hand l} \<and>
   distinct (get_all_shipped_batches (ingest ts)) \<and>
   (b \<noteq> '''' \<and> (\<exists>t \<in> set ts. op_type t = ''Transfer'' \<and> from_batch t = b) \<and>
      (\<forall>t \<in> set ts. op_type t = ''On-Hand'' \<longrightarrow> to_batch t \<noteq> b)
    \<longrightarrow> b \<in> set (get_all_shipped_batches (ingest ts)))"
proof -
  let ?d = "batch_lineages (ingest ts)"
  have dist: "distinct (map fst ?d)" by (rule distinct_keys_ingest)
  have eq: "set (get_all_shipped_batches (ingest ts)) =
     {b. \<exists>l. get_batch_lineage (ingest ts) b = Some l \<and>
              has_left_inventory l \<and> \<not> is_on_hand l}"
    unfolding get_all_shipped_batches_def get_batch_lineage_def
    by (auto simp: lookup_in_distinct [OF dist] image_iff)
  have d2: "distinct (get_all_shipped_batches (ingest ts))"
    unfolding get_all_shipped_batches_def using dist by (rule distinct_map_filter)
  have "b \<in> set (get_all_shipped_batches (ingest ts))"
    if ne: "b \<noteq> ''''"
      and src: "\<exists>t \<in> set ts. op_type t = ''Transfer'' \<and> from_batch t = b"
      and noh: "\<forall>t \<in> set ts. op_type t = ''On-Hand'' \<longrightarrow> to_batch t \<noteq> b"
  proof -
    from src ne have "b \<in> batch_names ts" by (auto simp: batch_names_def)
    then have l: "get_batch_lineage (ingest ts) b = Some (fold (effect_on b) ts (BatchLineage b))"
      by (simp add: get_batch_lineage_ingest)
    have "has_left_inventory (fold (effect_on b) ts (BatchLineage b))"
      using src ne by (auto simp: has_left_fold)
    moreover have "\<not> is_on_hand (fold (effect_on b) ts (BatchLineage b))"
      using noh by (auto simp: is_on_hand_fold BatchLineage_def)
    ultimately show ?thesis unfolding eq using l by simp
  qed
  with eq d2 show ?thesis by blast
qed

theorem shipped_batches_exact_witness:
  "''A'' \<noteq> '''' \<and>
   (\<exists>t \<in> set two_transfers_ledger. op_type t = ''Transfer'' \<and> from_batch t = ''A'') \<and>
   \<not> (\<exists>t \<in> set two_transfers_ledger. op_type t = ''On-Hand'' \<and> to_batch t = ''A'') \<and>
   ''A'' \<in> set (get_all_shipped_batches (ingest two_transfers_ledger))"
proof -
  have h: "''A'' \<noteq> '''' \<and>
   (\<exists>t \<in> set two_transfers_ledger. op_type t = ''Transfer'' \<and> from_batch t = ''A'') \<and>
   (\<forall>t \<in> set two_transfers_ledger. op_type t = ''On-Hand'' \<longrightarrow> to_batch t \<noteq> ''A'')"
    by (simp add: two_transfers_ledger_def ledger_record_def)
  from shipped_batches_exact [of two_transfers_ledger "''A''"] h show ?thesis by blast
qed

text \<open>
  C10. The edge export with the filter \<open>shipped\<close> selects on \<open>has_left_inventory\<close>
  alone: the destination batches of its rows are exactly the batches whose
  \<open>has_left_inventory\<close> flag is true, whatever their \<open>is_on_hand\<close> flag. They include
  every batch returned by \<open>get_all_shipped_batches\<close>, and for some ledgers the inclusion
  is strict.
\<close>

theorem shipped_export_ignores_on_hand:
  "Destination_Batch ` set (export_lineage_to_csv (ingest ts) (Some ''shipped'')) =
     {b. \<exists>l. get_batch_lineage (ingest ts) b = Some l \<and> has_left_inventory l} \<and>
   set (get_all_shipped_batches (ingest ts)) \<subseteq>
     Destination_Batch ` set (export_lineage_to_csv (ingest ts) (Some ''shipped'')) \<and>
   set (get_all_shipped_batches (ingest on_hand_source_ledger)) \<subset>
     Destination_Batch ` set (export_lineage_to_csv (ingest on_hand_source_ledger) (Some ''shipped''))"
proof -
  let ?d = "batch_lineages (ingest ts)"
  have dist: "distinct (map fst ?d)" by (rule distinct_keys_ingest)
  have "Destination_Batch ` set (export_lineage_to_csv (ingest ts) (Some ''shipped'')) =
      fst ` {p \<in> set ?d. has_left_inventory (snd p)}"
    by (simp add: export_destinations)
  also have "\<dots> = {b. \<exists>l. get_batch_lineage (ingest ts) b = Some l \<and> has_left_inventory l}"
    unfolding get_batch_lineage_def
    by (auto simp: lookup_in_distinct [OF dist] image_iff)
  finally have eq: "Destination_Batch ` set (export_lineage_to_csv (ingest ts) (Some ''shipped'')) =
     {b. \<exists>l. get_batch_lineage (ingest ts) b = Some l \<and> has_left_inventory l}" .
  have "set (get_all_shipped_batches (ingest ts)) \<subseteq>
     {b. \<exists>l. get_batch_lineage (ingest ts) b = Some l \<and> has_left_inventory l}"
    unfolding get_all_shipped_batches_def get_batch_lineage_def
    by (auto simp: lookup_in_distinct [OF dist])
  moreover have "set (get_all_shipped_batches (ingest on_hand_source_ledger)) \<subset>
     Destination_Batch ` set (export_lineage_to_csv (ingest on_hand_source_ledger) (Some ''shipped''))"
  proof -
    have "get_all_shipped_batches (ingest on_hand_source_ledger) = []"
      by code_simp
    moreover have "map Destination_Batch
        (export_lineage_to_csv (ingest on_hand_source_ledger) (Some ''shipped'')) = [''A'']"
      by code_simp
    then have "Destination_Batch `
        set (export_lineage_to_csv (ingest on_hand_source_ledger) (Some ''shipped'')) = {''A''}"
      by (metis list.set_map list.simps(15) set_empty2 empty_set)
    ultimately show ?thesis by auto
  qed
  ultimately show ?thesis using eq by simp
qed

subsection \<open>Records of an unknown operation type\<close>

lemma effect_on_unknown:
  assumes "op_type r \<notin> set [''On-Hand'', ''Transfer'', ''Blend'', ''Receipt'', ''Adjustment'']"
  shows "effect_on b r l = l"
  using assms by (simp add: effect_on_def)

text \<open>
  C2, as the code has it. Let \<open>r\<close> be a record whose operation type is none of On-Hand,
  Transfer, Blend, Receipt and Adjustment, anywhere in a record sequence. For every batch
  name that another record of the sequence mentions as its source or destination, the
  lineage returned by \<open>get_batch_lineage\<close> is the same with \<open>r\<close> and without it.
  The first pass creates a node for both endpoints of \<open>r\<close> whatever its type, so an
  endpoint of \<open>r\<close> that no other record mentions has the fresh lineage
  \<open>BatchLineage b\<close> with \<open>r\<close> and is not found without it. All other names are not
  found either way.
\<close>

theorem unknown_type_noop:
  assumes "op_type r \<notin> set [''On-Hand'', ''Transfer'', ''Blend'', ''Receipt'', ''Adjustment'']"
  shows "get_batch_lineage (ingest (xs @ r # ys)) b =
     (if b \<noteq> '''' \<and> (\<exists>t \<in> set (xs @ ys). from_batch t = b \<or> to_batch t = b)
      then get_batch_lineage (ingest (xs @ ys)) b
      else if b \<noteq> '''' \<and> (from_batch r = b \<or> to_batch r = b)
           then Some (BatchLineage b) else None)"
proof -
  have fold_eq: "fold (effect_on b) (xs @ r # ys) l = fold (effect_on b) (xs @ ys) l" for l
    by (simp add: effect_on_unknown [OF assms])
  have names: "b \<in> batch_names (xs @ r # ys) \<longleftrightarrow>
      b \<in> batch_names (xs @ ys) \<or> (b \<noteq> '''' \<and> (from_batch r = b \<or> to_batch r = b))"
    by (auto simp: batch_names_def)
  have names': "b \<in> batch_names (xs @ ys) \<longleftrightarrow>
      b \<noteq> '''' \<and> (\<exists>t \<in> set (xs @ ys). from_batch t = b \<or> to_batch t = b)"
    by (simp add: batch_names_def)
  have only_r: "fold (effect_on b) (xs @ ys) (BatchLineage b) = BatchLineage b"
    if "b \<notin> batch_names (xs @ ys)" "b \<noteq> ''''"
  proof -
    have "\<forall>t \<in> set ts. from_batch t \<noteq> b \<and> to_batch t \<noteq> b \<Longrightarrow>
        fold (effect_on b) ts l = l" for ts and l :: "'a batch_lineage"
      by (induction ts arbitrary: l) (simp_all add: effect_on_def)
    moreover have "\<forall>t \<in> set (xs @ ys). from_batch t \<noteq> b \<and> to_batch t \<noteq> b"
      using that by (auto simp: batch_names_def)
    ultimately show ?thesis by blast
  qed
  show ?thesis
    unfolding get_batch_lineage_ingest fold_eq names
    using only_r names' by auto
qed

theorem unknown_type_noop_witness:
  "op_type (ledger_record ''Bogus'' ''A'' ''B'' (1::real))
     \<notin> set [''On-Hand'', ''Transfer'', ''Blend'', ''Receipt'', ''Adjustment''] \<and>
   get_batch_lineage
     (ingest ([ledger_record ''Transfer'' ''A'' ''B'' 5] @
              ledger_record ''Bogus'' ''A'' ''B'' (1::real) # [])) ''B'' =
   get_batch_lineage (ingest ([ledger_record ''Transfer'' ''A'' ''B'' 5] @ [])) ''B''"
proof -
  have h: "op_type (ledger_record ''Bogus'' ''A'' ''B'' (1::real))
     \<notin> set [''On-Hand'', ''Transfer'', ''Blend'', ''Receipt'', ''Adjustment'']"
    by (simp add: ledger_record_def)
  from unknown_type_noop [OF h, of "[ledger_record ''Transfer'' ''A'' ''B'' 5]" "[]" "''B''"] h
  show ?thesis by (simp add: ledger_record_def)
qed

text \<open>
  The lineage of an endpoint is therefore not always unchanged: on the ledger that
  consists of one such record from \<open>A\<close> to \<open>B\<close>, \<open>A\<close> has a lineage with the
  record and is not found without it.
\<close>

theorem unknown_type_noop_counterexample:
  "op_type (ledger_record ''Bogus'' ''A'' ''B'' (1::real))
     \<notin> set [''On-Hand'', ''Transfer'', ''Blend'', ''Receipt'', ''Adjustment''] \<and>
   get_batch_lineage (ingest ([] @ ledger_record ''Bogus'' ''A'' ''B'' (1::real) # [])) ''A''
     = Some (BatchLineage ''A'') \<and>
   get_batch_lineage (ingest ([] @ [] :: real transaction list)) ''A'' = None"
  by code_simp

subsection \<open>Numeric fields of a row\<close>




subsection \<open>The lineage tree\<close>

lemma card_keys_decrease:
  assumes "name \<notin> visited" and "get_batch_lineage self name = Some l"
  shows "card (fst ` set (batch_lineages self) - insert name visited)
           < card (fst ` set (batch_lineages self) - visited)"
proof -
  have "map_of (batch_lineages self) name \<noteq> None"
    using assms(2) by (simp add: get_batch_lineage_def)
  then have "name \<in> fst ` set (batch_lineages self)"
    by (simp add: map_of_eq_None_iff)
  then have "fst ` set (batch_lineages self) - insert name visited
          \<subset> fst ` set (batch_lineages self) - visited"
    using assms(1) by blast
  then show ?thesis by (simp add: psubset_card_mono)
qed

lemma sub_trees_all:
  assumes "\<forall>r \<in> set rs. \<exists>t. r = Inr t"
  shows "sub_trees rs = Inr (map projr rs)"
  using assms by (induction rs rule: sub_trees.induct) auto

lemma sub_trees_Inr:
  "sub_trees rs = Inr ts \<Longrightarrow> rs = map Inr ts"
  by (induction rs arbitrary: ts rule: sub_trees.induct) (auto split: sum.splits)



lemma tree_depth_set_gallons [simp]:
  "tree_depth (set_gallons_contributed g t) = tree_depth t"
  by (cases t) simp_all

lemma path_marks_set_gallons [simp]:
  "path_marks p (set_gallons_contributed g t) = path_marks p t"
  by (cases t) simp_all

lemma fold_max_le: "fold max xs a \<le> (n::nat) \<longleftrightarrow> a \<le> n \<and> (\<forall>x \<in> set xs. x \<le> n)"
  by (induction xs arbitrary: a) auto

text \<open>The equation of a call that passes the three guards.\<close>

lemma get_full_lineage_tree_found:
  assumes "name \<notin> visited" and "helper < frames" and "get_batch_lineage self name = Some l"
  shows "get_full_lineage_tree helper frames self name visited =
     (case sub_trees
             (map (\<lambda>p. case get_full_lineage_tree helper (frames - 1) self (fst p)
                               (insert name visited) of
                          Inl e \<Rightarrow> Inl e
                        | Inr sub_tree \<Rightarrow> Inr (set_gallons_contributed (snd p) sub_tree))
                  (contributing_batches l)) of
        Inl e \<Rightarrow> Inl e
      | Inr trees \<Rightarrow>
          Inr (Lineage_Node name (current_volume l) (is_on_hand l)
                 (has_left_inventory l) trees None))"
  using assms by (simp add: get_full_lineage_tree.simps [of helper frames self name visited])


lemma enough_frames:
  assumes "card (fst ` set (batch_lineages self) - visited) + helper < frames"
  shows "\<exists>t. get_full_lineage_tree helper frames self name visited = Inr t \<and>
             tree_depth t \<le> card (fst ` set (batch_lineages self) - visited)"
  using assms
proof (induction helper frames self name visited rule: get_full_lineage_tree.induct)
  case (1 helper frames self name visited)
  from "1.prems" have g: "frames \<noteq> 0" "\<not> frames \<le> helper" by auto
  show ?case
  proof (cases "name \<in> visited")
    case True
    then show ?thesis
      using g by (simp add: get_full_lineage_tree.simps [of helper frames self name visited])
  next
    case False
    show ?thesis
    proof (cases "get_batch_lineage self name")
      case None
      then show ?thesis
        using g False
        by (simp add: get_full_lineage_tree.simps [of helper frames self name visited])
    next
      case (Some l)
      let ?c = "card (fst ` set (batch_lineages self) - insert name visited)"
      let ?call = "\<lambda>p. get_full_lineage_tree helper (frames - 1) self (fst p)
                               (insert name visited)"
      let ?rs = "map (\<lambda>p. case ?call p of
                          Inl e \<Rightarrow> Inl e
                        | Inr sub_tree \<Rightarrow> Inr (set_gallons_contributed (snd p) sub_tree))
                  (contributing_batches l)"
      have dec: "?c < card (fst ` set (batch_lineages self) - visited)"
        using False Some by (rule card_keys_decrease)
      then have "?c + helper < frames - 1" using "1.prems" by simp
      then have child: "\<exists>t. ?call p = Inr t \<and> tree_depth t \<le> ?c"
        if "p \<in> set (contributing_batches l)" for p
        using "1.IH" [OF g(1) False g(2) Some that] by blast
      then have all: "\<forall>r \<in> set ?rs. \<exists>t. r = Inr t \<and> tree_depth t \<le> ?c"
        by fastforce
      then have "sub_trees ?rs = Inr (map projr ?rs)"
        by (intro sub_trees_all) blast
      moreover have "\<forall>t \<in> set (map projr ?rs). tree_depth t \<le> ?c"
        using all by fastforce
      then have "fold max (map tree_depth (map projr ?rs)) 0 \<le> ?c"
        by (simp add: fold_max_le)
      ultimately show ?thesis
        using dec False Some g
        by (simp add: get_full_lineage_tree_found)
    qed
  qed
qed

lemma path_marks_tree:
  "get_full_lineage_tree helper frames self name visited = Inr t \<Longrightarrow> path_marks visited t"
proof (induction helper frames self name visited arbitrary: t rule: get_full_lineage_tree.induct)
  case (1 helper frames self name visited)
  show ?case
  proof (cases "frames = 0 \<or> name \<in> visited \<or> frames \<le> helper")
    case True
    then show ?thesis
      using "1.prems"
      by (auto simp: get_full_lineage_tree.simps [of helper frames self name visited]
          split: if_splits)
  next
    case False
    then have g: "frames \<noteq> 0" "name \<notin> visited" "\<not> frames \<le> helper" by auto
    show ?thesis
    proof (cases "get_batch_lineage self name")
      case None
      then show ?thesis
        using "1.prems" g
        by (auto simp: get_full_lineage_tree.simps [of helper frames self name visited])
    next
      case (Some l)
      let ?call = "\<lambda>p. get_full_lineage_tree helper (frames - 1) self (fst p)
                               (insert name visited)"
      let ?rs = "map (\<lambda>p. case ?call p of
                          Inl e \<Rightarrow> Inl e
                        | Inr sub_tree \<Rightarrow> Inr (set_gallons_contributed (snd p) sub_tree))
                  (contributing_batches l)"
      from "1.prems" g Some obtain trees where st: "sub_trees ?rs = Inr trees"
        and t: "t = Lineage_Node name (current_volume l) (is_on_hand l)
                 (has_left_inventory l) trees None"
        by (auto simp: get_full_lineage_tree.simps [of helper frames self name visited]
            split: sum.splits)
      from st have rs: "?rs = map Inr trees" by (rule sub_trees_Inr)
      have "path_marks (insert name visited) u" if "u \<in> set trees" for u
      proof -
        from that rs have "Inr u \<in> set ?rs" by simp
        then obtain p st where p: "p \<in> set (contributing_batches l)"
          and c: "?call p = Inr st" and u: "u = set_gallons_contributed (snd p) st"
          by (auto split: sum.splits)
        from "1.IH" [OF g Some p c] show ?thesis using u by simp
      qed
      then show ?thesis using t g by (simp add: list_all_iff)
    qed
  qed
qed

lemma batch_no_inject [simp]: "batch_no j = batch_no k \<longleftrightarrow> j = k"
proof
  assume "batch_no j = batch_no k"
  then have "length (batch_no j) = length (batch_no k)" by simp
  then show "j = k" by (simp add: batch_no_def)
qed simp

lemma batch_no_nonempty [simp]: "batch_no k \<noteq> ''''"
  by (simp add: batch_no_def)







text \<open>
  C4. Cycle detection is per branch. In a tree returned for the visited set
  \<open>visited\<close>, a node is a \<open>cycle_detected\<close> leaf exactly when its name is in
  \<open>visited\<close> or is the name of one of its ancestors in the tree (\<open>path_marks\<close>); for a
  call from outside, \<open>visited\<close> is empty and the marker stands exactly at the names that
  repeat along a root-to-leaf path. A tree is returned whenever the interpreter allows
  enough depth. The sub-tree of each contributing batch is computed from the visited set
  of its parent with the parent's name added, whatever its siblings are, so a batch
  expanded in one branch is expanded again in a sibling branch.
\<close>

theorem cycle_detection_is_per_branch:
  "(get_full_lineage_tree helper frames (ingest ts) b visited = Inr t \<longrightarrow> path_marks visited t) \<and>
   (card (fst ` set (batch_lineages (ingest ts)) - visited) + helper < frames \<longrightarrow>
      (\<exists>u. get_full_lineage_tree helper frames (ingest ts) b visited = Inr u \<and>
           path_marks visited u)) \<and>
   (b \<notin> visited \<and> helper < frames \<and> get_batch_lineage (ingest ts) b = Some l \<longrightarrow>
      get_full_lineage_tree helper frames (ingest ts) b visited =
        (case sub_trees
                (map (\<lambda>p. case get_full_lineage_tree helper (frames - 1) (ingest ts) (fst p)
                                  (insert b visited) of
                             Inl e \<Rightarrow> Inl e
                           | Inr sub_tree \<Rightarrow> Inr (set_gallons_contributed (snd p) sub_tree))
                     (contributing_batches l)) of
           Inl e \<Rightarrow> Inl e
         | Inr trees \<Rightarrow>
             Inr (Lineage_Node b (current_volume l) (is_on_hand l)
                    (has_left_inventory l) trees None)))"
proof (intro conjI impI)
  assume "get_full_lineage_tree helper frames (ingest ts) b visited = Inr t"
  then show "path_marks visited t" by (rule path_marks_tree)
next
  assume "card (fst ` set (batch_lineages (ingest ts)) - visited) + helper < frames"
  from enough_frames [OF this, of b] obtain u where
    u: "get_full_lineage_tree helper frames (ingest ts) b visited = Inr u" by blast
  then have "path_marks visited u" by (rule path_marks_tree)
  with u show "\<exists>u. get_full_lineage_tree helper frames (ingest ts) b visited = Inr u \<and>
           path_marks visited u" by blast
next
  assume "b \<notin> visited \<and> helper < frames \<and> get_batch_lineage (ingest ts) b = Some l"
  then show "get_full_lineage_tree helper frames (ingest ts) b visited =
        (case sub_trees
                (map (\<lambda>p. case get_full_lineage_tree helper (frames - 1) (ingest ts) (fst p)
                                  (insert b visited) of
                             Inl e \<Rightarrow> Inl e
                           | Inr sub_tree \<Rightarrow> Inr (set_gallons_contributed (snd p) sub_tree))
                     (contributing_batches l)) of
           Inl e \<Rightarrow> Inl e
         | Inr trees \<Rightarrow>
             Inr (Lineage_Node b (current_volume l) (is_on_hand l)
                    (has_left_inventory l) trees None))"
    by (simp add: get_full_lineage_tree_found)
qed

theorem cycle_detection_is_per_branch_witness:
  "get_full_lineage_tree 1 1000 (ingest diamond_ledger) ''D'' {} =
     Inr (Lineage_Node ''D'' 0 False False
       [Lineage_Node ''B'' 0 False True [Lineage_Node ''A'' 0 False True [] (Some 1)] (Some 3),
        Lineage_Node ''C'' 0 False True [Lineage_Node ''A'' 0 False True [] (Some 2)] (Some 4)]
       None) \<and>
   path_marks {}
     (Lineage_Node ''D'' 0 False False
       [Lineage_Node ''B'' 0 False True [Lineage_Node ''A'' 0 False True [] (Some 1)] (Some 3),
        Lineage_Node ''C'' 0 False True [Lineage_Node ''A'' 0 False True [] (Some (2::real))] (Some 4)]
       None)"
proof -
  have t: "get_full_lineage_tree 1 1000 (ingest diamond_ledger) ''D'' {} =
     Inr (Lineage_Node ''D'' 0 False False
       [Lineage_Node ''B'' 0 False True [Lineage_Node ''A'' 0 False True [] (Some 1)] (Some 3),
        Lineage_Node ''C'' 0 False True [Lineage_Node ''A'' 0 False True [] (Some 2)] (Some 4)]
       None)"
    by code_simp
  from cycle_detection_is_per_branch [of 1 1000 diamond_ledger "''D''" "{}"] t
  show ?thesis by simp
qed

end
